theory Spec2Isabelle
  imports Main
begin

section \<open>JavaScript values and built-ins used by \<open>src/crawler.ts\<close>\<close>

text \<open>
  An exception value. The crawler never inspects one: it stores it in the result
  (\<open>error: err\<close>) or prints it.
\<close>

type_synonym js_error = string

text \<open>
  The values a \<open>filter\<close> callback of the crawler can return. Both callbacks of
  \<open>performCrawl\<close> are arrow functions with a block body and no \<open>return\<close>
  statement, so they return \<open>undefined\<close>; \<open>Array.prototype.filter\<close> keeps an
  element when the callback's value is truthy.
\<close>

datatype js_value = Undefined | Boolean bool

fun truthy :: "js_value \<Rightarrow> bool" where
  "truthy Undefined = False"
| "truthy (Boolean b) = b"

text \<open>
  A block body \<open>{ e }\<close> whose only statement is the expression \<open>e\<close>: the
  expression is evaluated, its value is dropped, and the call returns \<open>undefined\<close>.
\<close>

definition expression_statement :: "'a \<Rightarrow> js_value" where
  "expression_statement e = Undefined"

definition filter_js :: "('a \<Rightarrow> js_value) \<Rightarrow> 'a list \<Rightarrow> 'a list" where
  "filter_js f xs = filter (\<lambda>x. truthy (f x)) xs"

text \<open>
  Strings are lists of code units; the model covers the code units below 256 (Latin-1).
  There \<open>toLowerCase\<close> changes the letters \<open>A\<close> to \<open>Z\<close> (65 to 90) and the
  accented capitals 192 to 222, the multiplication sign 215 excepted, each to the unit
  32 above it, and leaves every other unit as it is. \<open>length\<close> counts code units.
\<close>

definition isUpper :: "char \<Rightarrow> bool" where
  "isUpper c =
     ((65 \<le> (of_char c :: nat) \<and> (of_char c :: nat) \<le> 90)
      \<or> (192 \<le> (of_char c :: nat) \<and> (of_char c :: nat) \<le> 222 \<and> (of_char c :: nat) \<noteq> 215))"

definition toLowerChar :: "char \<Rightarrow> char" where
  "toLowerChar c = (if isUpper c then char_of ((of_char c :: nat) + 32) else c)"

definition toLowerCase :: "string \<Rightarrow> string" where
  "toLowerCase s = map toLowerChar s"

text \<open>
  \<open>s.split(sep)\<close> for a one-unit separator, written for any separator test:
  the pieces between consecutive separators, in order, empty pieces included;
  the empty string splits into one empty piece. \<open>cur\<close> is the piece being read,
  reversed.
\<close>

fun split_acc :: "(char \<Rightarrow> bool) \<Rightarrow> string \<Rightarrow> string \<Rightarrow> string list" where
  "split_acc sep cur [] = [rev cur]"
| "split_acc sep cur (c # cs) =
     (if sep c then rev cur # split_acc sep [] cs else split_acc sep (c # cur) cs)"

text \<open>\<open>content.split(' ')\<close>\<close>

definition split_space :: "string \<Rightarrow> string list" where
  "split_space s = split_acc (\<lambda>c. c = CHR '' '') [] s"

text \<open>
  A JavaScript \<open>Set\<close> keeps its elements in insertion order, each once:
  \<open>set_add\<close> is \<open>Set.prototype.add\<close> on the list of elements, and
  \<open>array_from_set xs\<close> is \<open>Array.from(new Set(xs))\<close>.
\<close>

definition set_add :: "'a list \<Rightarrow> 'a \<Rightarrow> 'a list" where
  "set_add xs x = (if x \<in> set xs then xs else xs @ [x])"

definition array_from_set :: "'a list \<Rightarrow> 'a list" where
  "array_from_set xs = fold (\<lambda>x acc. set_add acc x) xs []"

section \<open>The dictionary matcher (lines 192 to 195 and 222 to 226)\<close>

text \<open>
  \<open>words\<close>: the content split at single spaces, each piece lowercased, the pieces
  whose length is greater than \<open>minimumWordLength\<close> kept.
\<close>

definition pageWords :: "int \<Rightarrow> string \<Rightarrow> string list" where
  "pageWords minLen content =
     filter (\<lambda>word. int (length word) > minLen) (map toLowerCase (split_space content))"

text \<open>
  \<open>found\<close>: the \<open>forEach\<close> loop adding every word of the dictionary to a
  \<open>Set\<close>; the value is \<open>Array.from(found)\<close>.
\<close>

definition findMatches :: "string set \<Rightarrow> string list \<Rightarrow> string list" where
  "findMatches dict words =
     fold (\<lambda>word found. if word \<in> dict then set_add found word else found) words []"

section \<open>The crawler's state and its collaborators\<close>

text \<open>
  The class \<open>CrawlableLink\<close> is imported from \<open>./crawlableLink\<close>, which is not among
  the source files. \<open>performCrawl\<close> uses its constructor and three getters, so the model
  takes the class as a parameter: a function from the raw link to the object's three
  fields, or to the exception when the constructor throws.
\<close>

record crawlable_link =
  isCrawlable :: bool
  crawlableUrl :: string
  hostname :: string

type_synonym link_class = "string \<Rightarrow> js_error + crawlable_link"

text \<open>
  The fields of \<open>Crawler\<close> that \<open>performCrawl\<close>, \<open>enqueueCrawl\<close>, \<open>close\<close> and the
  drain handler read or write. \<open>browser\<close> is whether the field is non-null; \<open>urlQueue\<close>
  is the list of tasks pushed so far, \<open>None\<close> before \<open>init\<close> has created the queue.
  Not modelled: \<open>startTime\<close> (only printed), \<open>simultaneousRequests\<close>, \<open>requestTimeout\<close>
  and \<open>screenshotPath\<close> (passed to the queue and the browser), and \<open>output\<close>, whose calls
  are returned as a list instead. The functions \<open>output\<close> and \<open>callback\<close> come from
  the caller; the model takes them not to throw.
\<close>

record crawler =
  dictionary :: "string set"
  counter :: nat
  debug :: bool
  browser :: bool
  urlQueue :: "string list option"
  finished :: bool
  crawledUrls :: "string set"
  interestingDomains :: "string set"
  minimumWordLength :: int
  numberAdded :: nat
  itemsToProcessBeforeLogging :: nat
  takeScreenshots :: bool

text \<open>The constructor (lines 51 to 80), with the arguments the model keeps.\<close>

definition Crawler ::
  "string list \<Rightarrow> bool \<Rightarrow> bool \<Rightarrow> string list \<Rightarrow> string list \<Rightarrow> int \<Rightarrow> nat \<Rightarrow> crawler" where
  "Crawler dict dbg shots domains crawled minLen logEvery =
     \<lparr> dictionary = set dict, counter = 0, debug = dbg, browser = False,
       urlQueue = None, finished = False, crawledUrls = set crawled,
       interestingDomains = set domains, minimumWordLength = minLen,
       numberAdded = 0, itemsToProcessBeforeLogging = logEvery,
       takeScreenshots = shots \<rparr>"

text \<open>
  The four object literals \<open>performCrawl\<close> builds:
  \<open>{found: true, url, matches, links}\<close>, \<open>{found: false, url, words: ''}\<close>,
  \<open>{found: false, url, status: 'already crawled'}\<close> and \<open>{found: false, url, error}\<close>.
\<close>

datatype crawl_result =
    Found string "string list" "string list"
  | NotFound string
  | AlreadyCrawled string
  | Failed string js_error

text \<open>
  What \<open>this.output\<close> is called with: a result object, or one of the debug messages
  (the progress message carries the counter; the messages' other figures are left out).
\<close>

datatype out_item =
    Result crawl_result
  | ProgressLog nat
  | ErrorLog string js_error
  | InitLog
  | DrainLog
  | ClosingLog

text \<open>
  What the browser does during one call of \<open>performCrawl\<close>: whether
  \<open>puppeteer.launch\<close>, \<open>browser.newPage\<close>, the screenshot and \<open>page.close\<close> throw
  (\<open>Some\<close> the exception), and what loading the page gives: the exception of
  \<open>page.goto\<close>, \<open>page.content\<close> or \<open>page.$$eval\<close> (a timeout included), or the
  content and the \<open>href\<close>s of the page's anchors. The screenshot's exception
  includes one thrown while its path is built (\<open>new URL(url)\<close>).
\<close>

record page_env =
  launch :: "js_error option"
  newPage :: "js_error option"
  navigate :: "js_error + string \<times> string list"
  screenshot :: "js_error option"
  closePage :: "js_error option"

text \<open>
  What one call of \<open>performCrawl\<close> did: how its promise settles (\<open>Inl\<close> rejected
  with the exception, \<open>Inr\<close> resolved, with the result object the call built),
  the crawler afterwards, the arguments of its calls of \<open>this.output\<close> and of its calls
  of \<open>callback\<close>, in order.
\<close>

record crawl_ret =
  completion :: "js_error + crawl_result"
  post :: crawler
  printed :: "out_item list"
  called_back :: "crawl_result list"

section \<open>\<open>performCrawl\<close> (lines 145 to 261)\<close>

text \<open>\<open>hrefs.map((link) => new CrawlableLink(link))\<close>: the first exception ends the map.\<close>

fun construct_all :: "link_class \<Rightarrow> string list \<Rightarrow> js_error + crawlable_link list" where
  "construct_all mk [] = Inr []"
| "construct_all mk (h # hs) =
     (case mk h of
        Inl e \<Rightarrow> Inl e
      | Inr l \<Rightarrow> (case construct_all mk hs of Inl e \<Rightarrow> Inl e | Inr ls \<Rightarrow> Inr (l # ls)))"

text \<open>
  \<open>validLinks\<close> (lines 207 to 212). The filter's callback is \<open>{ link.isCrawlable }\<close>.
\<close>

definition validLinksOf :: "link_class \<Rightarrow> string list \<Rightarrow> js_error + string list" where
  "validLinksOf mk hrefs =
     (case construct_all mk hrefs of
        Inl e \<Rightarrow> Inl e
      | Inr links \<Rightarrow>
          Inr (map crawlableUrl
                 (filter_js (\<lambda>link. expression_statement (isCrawlable link)) links)))"

text \<open>
  The filter of lines 215 to 217; its callback is
  \<open>{ this.interestingDomains.has(new CrawlableLink(link).hostname) }\<close>, so it can throw.
\<close>

fun interestingLinks :: "link_class \<Rightarrow> string set \<Rightarrow> string list \<Rightarrow> js_error + string list" where
  "interestingLinks mk domains [] = Inr []"
| "interestingLinks mk domains (link # links) =
     (case mk link of
        Inl e \<Rightarrow> Inl e
      | Inr l \<Rightarrow>
          (case interestingLinks mk domains links of
             Inl e \<Rightarrow> Inl e
           | Inr kept \<Rightarrow>
               Inr (if truthy (expression_statement (hostname l \<in> domains))
                    then link # kept else kept)))"

text \<open>
  \<open>.forEach(this.enqueueCrawl)\<close> (line 218) passes the method without its receiver:
  in the class body's strict mode \<open>this\<close> is \<open>undefined\<close> in every call, and reading
  \<open>this.urlQueue\<close> throws a TypeError at the first element. An empty array calls
  nothing.
\<close>

definition forEach_enqueueCrawl :: "string list \<Rightarrow> js_error + unit" where
  "forEach_enqueueCrawl links =
     (if links = [] then Inr () else Inl ''TypeError: this is undefined'')"

text \<open>
  The body of the \<open>try\<close> block (lines 185 to 248): the exception it throws, or the
  result it builds and what it passes to \<open>this.output\<close>. It changes no field.
\<close>

definition tryBody ::
  "link_class \<Rightarrow> page_env \<Rightarrow> string \<Rightarrow> crawler \<Rightarrow> js_error + crawl_result \<times> out_item list" where
  "tryBody mk env url s =
     (case navigate env of
        Inl e \<Rightarrow> Inl e
      | Inr (content, hrefsFromPage) \<Rightarrow>
          let words = pageWords (minimumWordLength s) content;
              hrefs = array_from_set hrefsFromPage
          in (case validLinksOf mk hrefs of
                Inl e \<Rightarrow> Inl e
              | Inr validLinks \<Rightarrow>
                  (case interestingLinks mk (interestingDomains s) validLinks of
                     Inl e \<Rightarrow> Inl e
                   | Inr interesting \<Rightarrow>
                       (case forEach_enqueueCrawl interesting of
                          Inl e \<Rightarrow> Inl e
                        | Inr u \<Rightarrow>
                            let found = findMatches (dictionary s) words
                            in if length found > 0 then
                                 let result = Found url found validLinks
                                 in if takeScreenshots s then
                                      (case screenshot env of
                                         Some e \<Rightarrow> Inl e
                                       | None \<Rightarrow> Inr (result, [Result result]))
                                    else Inr (result, [Result result])
                               else Inr (NotFound url, [])))))"

text \<open>Lines 175 to 182: launch the browser when there is none, then open a page.\<close>

definition openPage :: "page_env \<Rightarrow> crawler \<Rightarrow> (js_error + unit) \<times> crawler" where
  "openPage env s =
     (if \<not> browser s then
        (case launch env of
           Some e \<Rightarrow> (Inl e, s)
         | None \<Rightarrow>
             (case newPage env of
                Some e \<Rightarrow> (Inl e, s\<lparr>browser := True\<rparr>)
              | None \<Rightarrow> (Inr (), s\<lparr>browser := True\<rparr>)))
      else
        (case newPage env of
           Some e \<Rightarrow> (Inl e, s)
         | None \<Rightarrow> (Inr (), s)))"

text \<open>
  Lines 153 and 155: the URL is added to \<open>crawledUrls\<close> and the counter is incremented.
\<close>

definition claimUrl :: "string \<Rightarrow> crawler \<Rightarrow> crawler" where
  "claimUrl url s = s\<lparr>crawledUrls := insert url (crawledUrls s), counter := counter s + 1\<rparr>"

text \<open>
  The condition of line 158: debug mode, and the counter is a multiple of
  \<open>itemsToProcessBeforeLogging\<close> (\<open>counter % 0\<close> is \<open>NaN\<close>, never \<open>0\<close>).
\<close>

definition progressDue :: "crawler \<Rightarrow> bool" where
  "progressDue s =
     (debug s \<and> itemsToProcessBeforeLogging s \<noteq> 0
        \<and> counter s mod itemsToProcessBeforeLogging s = 0)"

text \<open>
  Lines 158 to 171: the progress message. Its text calls \<open>this.urlQueue.length()\<close>,
  which throws a TypeError when \<open>init\<close> has not created the queue; the exception is
  thrown while the argument is built, before \<open>this.output\<close> is called. The message
  carries the counter; the elapsed time, the ratio and the queue length it prints are
  left out.
\<close>

definition progressLog :: "crawler \<Rightarrow> js_error + out_item list" where
  "progressLog s =
     (if progressDue s then
        (case urlQueue s of
           None \<Rightarrow> Inl ''TypeError: urlQueue is undefined''
         | Some q \<Rightarrow> Inr [ProgressLog (counter s)])
      else Inr [])"

text \<open>
  Lines 153 to 260: the URL is added to \<open>crawledUrls\<close>, the counter is incremented, the
  progress message is printed, the page is opened and processed; \<open>catch\<close>
  turns an exception of the \<open>try\<close> block into the error result; \<open>finally\<close> closes the
  page; the callback, when there is one, receives the result. An exception of the
  progress message, of \<open>puppeteer.launch\<close>, of \<open>browser.newPage\<close> or of \<open>page.close\<close>
  is outside the \<open>try\<close> block or in \<open>finally\<close>: the call rejects with it and the
  callback is not called.
\<close>

definition crawlPage :: "link_class \<Rightarrow> page_env \<Rightarrow> string \<Rightarrow> bool \<Rightarrow> crawler \<Rightarrow> crawl_ret" where
  "crawlPage mk env url callback s =
     (let s1 = claimUrl url s
      in (case progressLog s1 of
            Inl e \<Rightarrow> \<lparr> completion = Inl e, post = s1, printed = [], called_back = [] \<rparr>
          | Inr progress \<Rightarrow>
              (case openPage env s1 of
                 (Inl e, s2) \<Rightarrow>
                   \<lparr> completion = Inl e, post = s2, printed = progress, called_back = [] \<rparr>
               | (Inr u, s2) \<Rightarrow>
                   let (result, out) =
                         (case tryBody mk env url s2 of
                            Inr (r, out) \<Rightarrow> (r, out)
                          | Inl err \<Rightarrow>
                              (Failed url err, if debug s2 then [ErrorLog url err] else []))
                   in (case closePage env of
                         Some e \<Rightarrow>
                           \<lparr> completion = Inl e, post = s2, printed = progress @ out,
                             called_back = [] \<rparr>
                       | None \<Rightarrow>
                           \<lparr> completion = Inr result, post = s2, printed = progress @ out,
                             called_back = (if callback then [result] else []) \<rparr>))))"

text \<open>
  \<open>performCrawl(url, callback)\<close>; \<open>callback\<close> is whether the argument is truthy. Lines
  146 to 151: the \<open>return\<close> stands inside \<open>if (callback)\<close>, so a call without callback
  goes on to line 153 also when the URL is in \<open>crawledUrls\<close>.

  The check of line 146 and the writes of lines 153 and 155 run without an \<open>await\<close>
  between them, so no other call runs in between; the calls of a run are modelled
  one after the other.
\<close>

definition performCrawl :: "link_class \<Rightarrow> page_env \<Rightarrow> string \<Rightarrow> bool \<Rightarrow> crawler \<Rightarrow> crawl_ret" where
  "performCrawl mk env url callback s =
     (if url \<in> crawledUrls s then
        (if callback then
           \<lparr> completion = Inr (AlreadyCrawled url), post = s, printed = [],
             called_back = [AlreadyCrawled url] \<rparr>
         else crawlPage mk env url callback s)
      else crawlPage mk env url callback s)"

section \<open>\<open>enqueueCrawl\<close>, the drain handler and \<open>close\<close>\<close>

text \<open>
  \<open>enqueueCrawl\<close> (lines 281 to 284) pushes the URL and counts it; it reads no set.
  Before \<open>init\<close> the queue is \<open>undefined\<close> and the push throws.
\<close>

definition enqueueCrawl :: "string \<Rightarrow> crawler \<Rightarrow> js_error + crawler" where
  "enqueueCrawl url s =
     (case urlQueue s of
        None \<Rightarrow> Inl ''TypeError: urlQueue is undefined''
      | Some q \<Rightarrow> Inr (s\<lparr>urlQueue := Some (q @ [url]), numberAdded := numberAdded s + 1\<rparr>))"

text \<open>
  \<open>close\<close> (lines 267 to 275): in debug mode it prints a message whose text calls
  \<open>this.urlQueue.length()\<close>, a TypeError when \<open>init\<close> has not created the queue; then
  it closes the browser, if there is one. The argument is the exception of
  \<open>browser.close\<close>, if it throws. No field changes. The value is how the promise
  settles and what was printed.
\<close>

definition close :: "js_error option \<Rightarrow> crawler \<Rightarrow> (js_error + unit) \<times> out_item list" where
  "close browserClose s =
     (if debug s \<and> urlQueue s = None then (Inl ''TypeError: urlQueue is undefined'', [])
      else
        let out = (if debug s then [ClosingLog] else [])
        in if browser s then
             (case browserClose of
                Some e \<Rightarrow> (Inl e, out)
              | None \<Rightarrow> (Inr (), out))
           else (Inr (), out))"

text \<open>
  The handler given to \<open>urlQueue.drain\<close> (lines 124 to 131): it sets \<open>finished\<close>,
  prints in debug mode and awaits \<open>close\<close>, whose exception rejects the handler's
  promise.
\<close>

definition onDrain ::
  "js_error option \<Rightarrow> crawler \<Rightarrow> (js_error + unit) \<times> crawler \<times> out_item list" where
  "onDrain browserClose s =
     (let s1 = s\<lparr>finished := True\<rparr>;
          msg = (if debug s1 then [DrainLog] else []);
          (settled, out) = close browserClose s1
      in (settled, s1, msg @ out))"

text \<open>
  \<open>init\<close> (lines 109 to 138): launches the browser, creates the queue and registers the
  drain handler. The screenshot directory it creates is not modelled. The argument is
  the exception of \<open>puppeteer.launch\<close>, if it throws.
\<close>

definition init :: "js_error option \<Rightarrow> crawler \<Rightarrow> js_error + crawler \<times> out_item list" where
  "init launchError s =
     (case launchError of
        Some e \<Rightarrow> Inl e
      | None \<Rightarrow>
          Inr (s\<lparr>browser := True, urlQueue := Some []\<rparr>, if debug s then [InitLog] else []))"

text \<open>The result objects among the arguments \<open>this.output\<close> was called with.\<close>

fun results_of :: "out_item list \<Rightarrow> crawl_result list" where
  "results_of [] = []"
| "results_of (Result r # items) = r # results_of items"
| "results_of (item # items) = results_of items"

section \<open>Runs\<close>

text \<open>
  What can happen to a crawler during a run, one after the other: the queue's worker
  calls \<open>performCrawl\<close> for a task, with or without a callback; someone calls
  \<open>enqueueCrawl\<close>; the queue calls the drain handler; someone calls \<open>close\<close> (which
  changes no field). When the queue, a library, does each of them is not part of the
  source: a run is any sequence. A step is the crawler after the call, also when the
  call threw.
\<close>

datatype event =
    Perform page_env string bool
  | Enqueue string
  | Drain "js_error option"
  | Close "js_error option"

fun step :: "link_class \<Rightarrow> event \<Rightarrow> crawler \<Rightarrow> crawler" where
  "step mk (Perform env url callback) s = post (performCrawl mk env url callback s)"
| "step mk (Enqueue url) s = (case enqueueCrawl url s of Inl e \<Rightarrow> s | Inr s' \<Rightarrow> s')"
| "step mk (Drain browserClose) s = fst (snd (onDrain browserClose s))"
| "step mk (Close browserClose) s = s"

definition run :: "link_class \<Rightarrow> event list \<Rightarrow> crawler \<Rightarrow> crawler" where
  "run mk events s = fold (step mk) events s"

text \<open>
  How many of the \<open>performCrawl\<close> calls of a run for \<open>url\<close> get past the check of
  lines 146 to 151, that is, add the URL, count it and open a page for it.
\<close>

fun processed_attempts :: "link_class \<Rightarrow> string \<Rightarrow> event list \<Rightarrow> crawler \<Rightarrow> nat" where
  "processed_attempts mk url [] s = 0"
| "processed_attempts mk url (Perform env url' callback # events) s =
     (if url' = url \<and> \<not> (url \<in> crawledUrls s \<and> callback) then 1 else 0)
       + processed_attempts mk url events (step mk (Perform env url' callback) s)"
| "processed_attempts mk url (event # events) s =
     processed_attempts mk url events (step mk event s)"

section \<open>Concrete collaborators for examples\<close>

text \<open>
  Modelled from the spec: the class \<open>CrawlableLink\<close> (\<open>./crawlableLink\<close>, not among the
  source files). The spec's Link Classifier, section 4.2: a link is crawlable iff it
  parses as an absolute URL with an http or https scheme; the classifier gives the
  normalized URL and the hostname of the URL's authority. Here, for links of the shape
  scheme, \<open>://\<close>, host, rest: the scheme is \<open>http\<close> or \<open>https\<close> in any case of
  letters; the hostname is the lowercased text after \<open>://\<close> up to the first \<open>/\<close>,
  \<open>:\<close>, \<open>?\<close> or \<open>#\<close>; the normalized URL has the scheme and the hostname in
  lowercase and the path \<open>/\<close> when the link has nothing after the host. User names,
  default ports, dot segments and percent-encoding are not treated, and the constructor
  never throws. Only the examples use it; every general theorem holds for any class.
\<close>

definition hostOf :: "string \<Rightarrow> string" where
  "hostOf rest = toLowerCase (takeWhile (\<lambda>c. c \<notin> set ''/:?#'') rest)"

definition normalizedUrl :: "string \<Rightarrow> string \<Rightarrow> string" where
  "normalizedUrl scheme rest =
     (let after = dropWhile (\<lambda>c. c \<notin> set ''/:?#'') rest
      in scheme @ hostOf rest @ (if after = [] then ''/'' else after))"

definition classify :: link_class where
  "classify raw =
     (if toLowerCase (take 7 raw) = ''http://'' then
        Inr \<lparr> isCrawlable = True, crawlableUrl = normalizedUrl ''http://'' (drop 7 raw),
              hostname = hostOf (drop 7 raw) \<rparr>
      else if toLowerCase (take 8 raw) = ''https://'' then
        Inr \<lparr> isCrawlable = True, crawlableUrl = normalizedUrl ''https://'' (drop 8 raw),
              hostname = hostOf (drop 8 raw) \<rparr>
      else Inr \<lparr> isCrawlable = False, crawlableUrl = raw, hostname = [] \<rparr>)"

text \<open>A page that loads with the given content and anchors; nothing throws.\<close>

definition loadedPage :: "string \<Rightarrow> string list \<Rightarrow> page_env" where
  "loadedPage content hrefs =
     \<lparr> launch = None, newPage = None, navigate = Inr (content, hrefs),
       screenshot = None, closePage = None \<rparr>"

text \<open>A page whose load throws (a timeout, a network error).\<close>

definition failingPage :: "js_error \<Rightarrow> page_env" where
  "failingPage e =
     \<lparr> launch = None, newPage = None, navigate = Inl e,
       screenshot = None, closePage = None \<rparr>"

section \<open>The matcher in the spec's words\<close>

text \<open>
  Section 4.3 of the spec: split the text on whitespace, lowercase each token, discard
  the tokens of length \<open>\<le> minWordLength\<close>, return those in the dictionary. The
  separator is a parameter: \<open>spec_match isWhitespace\<close> is the matcher of the spec, with
  space, tab, line feed, vertical tab, form feed and carriage return as whitespace.
\<close>

definition isWhitespace :: "char \<Rightarrow> bool" where
  "isWhitespace c = (c \<in> set [CHR '' '', CHR 0x09, CHR 0x0A, CHR 0x0B, CHR 0x0C, CHR 0x0D])"

definition spec_match :: "(char \<Rightarrow> bool) \<Rightarrow> string \<Rightarrow> string set \<Rightarrow> int \<Rightarrow> string set" where
  "spec_match separator text dict minLen =
     {w \<in> set (map toLowerCase (split_acc separator [] text)).
        \<not> int (length w) \<le> minLen \<and> w \<in> dict}"

text \<open>\<open>pieces.join(' ')\<close>, the inverse of \<open>split(' ')\<close>.\<close>

fun join_space :: "string list \<Rightarrow> string" where
  "join_space [] = []"
| "join_space [t] = t"
| "join_space (t # u # ts) = t @ CHR '' '' # join_space (u # ts)"

section \<open>Facts about the built-ins\<close>

lemma set_set_add: "set (set_add xs x) = insert x (set xs)"
  by (auto simp: set_add_def)

lemma distinct_set_add: "distinct xs \<Longrightarrow> distinct (set_add xs x)"
  by (simp add: set_add_def)

lemma set_fold_matches:
  "set (fold (\<lambda>word found. if word \<in> dict then set_add found word else found) ws acc)
     = set acc \<union> {w \<in> set ws. w \<in> dict}"
  by (induction ws arbitrary: acc) (auto simp: set_set_add)

lemma distinct_fold_matches:
  "distinct acc \<Longrightarrow>
   distinct (fold (\<lambda>word found. if word \<in> dict then set_add found word else found) ws acc)"
  by (induction ws arbitrary: acc) (simp_all add: distinct_set_add)

lemma set_findMatches: "set (findMatches dict ws) = {w \<in> set ws. w \<in> dict}"
  by (simp add: findMatches_def set_fold_matches)

lemma distinct_findMatches: "distinct (findMatches dict ws)"
  by (simp add: findMatches_def distinct_fold_matches)

lemma set_pageWords:
  "set (pageWords minLen content)
     = {w \<in> set (map toLowerCase (split_space content)). minLen < int (length w)}"
  by (simp add: pageWords_def)

lemma of_char_toLowerChar:
  "isUpper c \<Longrightarrow> (of_char (toLowerChar c) :: nat) = of_char c + 32"
  by (auto simp: toLowerChar_def isUpper_def)

lemma not_isUpper_toLowerChar: "\<not> isUpper (toLowerChar c)"
proof (cases "isUpper c")
  case True
  then have "(of_char c :: nat) \<le> 222" by (auto simp: isUpper_def)
  moreover have "(of_char (toLowerChar c) :: nat) = of_char c + 32"
    using True by (rule of_char_toLowerChar)
  moreover have "65 \<le> (of_char c :: nat)" using True by (auto simp: isUpper_def)
  moreover have "(of_char c :: nat) \<le> 90 \<or> 192 \<le> (of_char c :: nat)"
    using True by (auto simp: isUpper_def)
  ultimately show ?thesis unfolding isUpper_def [of "toLowerChar c"] by arith
next
  case False
  then show ?thesis by (simp add: toLowerChar_def)
qed

lemma toLowerChar_idem: "toLowerChar (toLowerChar c) = toLowerChar c"
  using not_isUpper_toLowerChar [of c] by (simp add: toLowerChar_def)

lemma toLowerCase_idem: "toLowerCase (toLowerCase s) = toLowerCase s"
  by (simp add: toLowerCase_def toLowerChar_idem)

lemma no_upper_toLowerCase: "c \<in> set (toLowerCase s) \<Longrightarrow> \<not> isUpper c"
  by (auto simp: toLowerCase_def not_isUpper_toLowerChar)

lemma length_toLowerCase: "length (toLowerCase s) = length s"
  by (simp add: toLowerCase_def)

lemma join_space_Cons: "join_space (t # ts) = (if ts = [] then t else t @ CHR '' '' # join_space ts)"
  by (cases ts) simp_all

lemma split_acc_not_Nil: "split_acc sep cur s \<noteq> []"
  by (induction s arbitrary: cur) simp_all

lemma join_split_acc: "join_space (split_acc (\<lambda>c. c = CHR '' '') cur s) = rev cur @ s"
  by (induction s arbitrary: cur) (simp_all add: join_space_Cons split_acc_not_Nil)

lemma join_split_space: "join_space (split_space s) = s"
  by (simp add: split_space_def join_split_acc)

lemma split_acc_no_separator:
  "\<forall>c \<in> set cur. \<not> sep c \<Longrightarrow> \<forall>t \<in> set (split_acc sep cur s). \<forall>c \<in> set t. \<not> sep c"
proof (induction s arbitrary: cur)
  case Nil
  then show ?case by simp
next
  case (Cons a s)
  show ?case
  proof (cases "sep a")
    case True
    have "\<forall>t \<in> set (split_acc sep [] s). \<forall>c \<in> set t. \<not> sep c"
      by (rule Cons.IH) simp
    with True Cons.prems show ?thesis by simp
  next
    case False
    have "\<forall>t \<in> set (split_acc sep (a # cur) s). \<forall>c \<in> set t. \<not> sep c"
      by (rule Cons.IH) (use False Cons.prems in simp)
    with False show ?thesis by simp
  qed
qed

lemma split_space_no_space:
  assumes "t \<in> set (split_space s)"
  shows "CHR '' '' \<notin> set t"
proof -
  have "\<forall>t \<in> set (split_acc (\<lambda>c. c = CHR '' '') [] s). \<forall>c \<in> set t. \<not> c = CHR '' ''"
    by (rule split_acc_no_separator) simp
  with assms show ?thesis
    unfolding split_space_def by blast
qed

lemma split_acc_token:
  "\<forall>c \<in> set t. \<not> sep c \<Longrightarrow> split_acc sep cur (t @ s) = split_acc sep (rev t @ cur) s"
  by (induction t arbitrary: cur) simp_all

lemma split_acc_join_space:
  assumes "ts \<noteq> []" and "\<forall>t \<in> set ts. \<forall>c \<in> set t. \<not> sep c" and "sep (CHR '' '')"
  shows "split_acc sep [] (join_space ts) = ts"
  using assms(1,2)
proof (induction ts rule: join_space.induct)
  case 1
  then show ?case by simp
next
  case (2 t)
  then have "split_acc sep [] (t @ []) = split_acc sep (rev t @ []) []"
    by (intro split_acc_token) simp
  then show ?case by simp
next
  case (3 t u ts)
  have "split_acc sep [] (t @ CHR '' '' # join_space (u # ts))
          = split_acc sep (rev t @ []) (CHR '' '' # join_space (u # ts))"
    by (rule split_acc_token) (use "3.prems" in simp)
  also have "\<dots> = t # split_acc sep [] (join_space (u # ts))"
    using assms(3) by simp
  also have "split_acc sep [] (join_space (u # ts)) = u # ts"
    by (rule "3.IH") (use "3.prems" in simp_all)
  finally show ?case by simp
qed

lemma split_space_join_space:
  assumes "ts \<noteq> []" and "\<forall>t \<in> set ts. CHR '' '' \<notin> set t"
  shows "split_space (join_space ts) = ts"
proof -
  have "\<forall>t \<in> set ts. \<forall>c \<in> set t. \<not> c = CHR '' ''"
    using assms(2) by blast
  with assms(1) show ?thesis
    unfolding split_space_def by (rule split_acc_join_space) (rule refl)
qed

section \<open>The matcher\<close>

text \<open>
  Claim C5, as the code has it: for every page text, dictionary and minimum word
  length, the words matched are exactly the tokens obtained by splitting the text at
  every single space character (and at nothing else), lowercased, whose length is
  strictly greater than the minimum word length and which are in the dictionary, each
  of them once.
  \<open>join_split_space\<close>, \<open>split_space_no_space\<close> and \<open>split_space_join_space\<close> say
  what splitting at spaces is: the one non-empty list of space-free pieces whose
  \<open>join(' ')\<close> is the text.
\<close>

theorem matcher_splits_on_space:
  "set (findMatches dict (pageWords minLen text))
     = spec_match (\<lambda>c. c = CHR '' '') text dict minLen
   \<and> distinct (findMatches dict (pageWords minLen text))"
proof
  let ?tokens = "map toLowerCase (split_space text)"
  have "set (findMatches dict (pageWords minLen text))
          = {w \<in> set (pageWords minLen text). w \<in> dict}"
    by (rule set_findMatches)
  also have "\<dots> = {w \<in> set ?tokens. minLen < int (length w) \<and> w \<in> dict}"
    unfolding set_pageWords by blast
  also have "\<dots> = spec_match (\<lambda>c. c = CHR '' '') text dict minLen"
    unfolding spec_match_def split_space_def by (simp add: not_le)
  finally show "set (findMatches dict (pageWords minLen text))
                  = spec_match (\<lambda>c. c = CHR '' '') text dict minLen" .
  show "distinct (findMatches dict (pageWords minLen text))"
    by (rule distinct_findMatches)
qed

text \<open>
  Claim C5 as stated splits on whitespace. A line feed is whitespace and not a space:
  the text \<open>dog\<close>, line feed, \<open>cat\<close> is one token for the code and two for the
  claim.
\<close>

theorem matcher_whitespace_counterexample:
  "set (findMatches {''dog'', ''cat''} (pageWords 2 (''dog'' @ [CHR 0x0A] @ ''cat'')))
     \<noteq> spec_match isWhitespace (''dog'' @ [CHR 0x0A] @ ''cat'') {''dog'', ''cat''} 2"
  by code_simp

text \<open>
  Claim C6 says that with dictionary \<open>{dog, cat}\<close>, minimum word length 3 and page text
  \<open>the dog sat\<close> the match result is \<open>{dog}\<close>. The constructor's documentation calls
  \<open>minimumWordLength\<close> the minimum length of words to search for, and \<open>dog\<close> has that
  length; line 195 keeps a word only when its length is greater, so nothing matches and
  the page's result is NotFound.
\<close>

theorem boundary_word_is_dropped:
  "findMatches {''dog'', ''cat''} (pageWords 3 ''the dog sat'') = []
   \<and> set (findMatches {''dog'', ''cat''} (pageWords 3 ''the dog sat'')) \<noteq> {''dog''}
   \<and> completion (performCrawl classify (loadedPage ''the dog sat'' []) ''https://a.test'' True
        (Crawler [''dog'', ''cat''] False False [] [] 3 100))
       = Inr (NotFound ''https://a.test'')"
  by code_simp

section \<open>Facts about \<open>performCrawl\<close>\<close>

lemma filter_js_expression_statement: "filter_js (\<lambda>x. expression_statement (f x)) xs = []"
  by (simp add: filter_js_def expression_statement_def)

lemma validLinksOf_eq:
  "validLinksOf mk hrefs = (case construct_all mk hrefs of Inl e \<Rightarrow> Inl e | Inr links \<Rightarrow> Inr [])"
  by (simp add: validLinksOf_def filter_js_expression_statement split: sum.splits)

lemma interestingLinks_keeps_nothing: "interestingLinks mk domains links = Inr kept \<Longrightarrow> kept = []"
  by (induction links arbitrary: kept) (auto simp: expression_statement_def split: sum.splits)

lemma tryBody_eq:
  "tryBody mk env url s =
     (case navigate env of
        Inl e \<Rightarrow> Inl e
      | Inr (content, hrefsFromPage) \<Rightarrow>
          (case construct_all mk (array_from_set hrefsFromPage) of
             Inl e \<Rightarrow> Inl e
           | Inr links \<Rightarrow>
               let found = findMatches (dictionary s) (pageWords (minimumWordLength s) content)
               in if found = [] then Inr (NotFound url, [])
                  else if takeScreenshots s \<and> screenshot env \<noteq> None then Inl (the (screenshot env))
                  else Inr (Found url found [], [Result (Found url found [])])))"
  by (auto simp: tryBody_def validLinksOf_eq forEach_enqueueCrawl_def Let_def
      split: sum.splits prod.splits option.splits)

lemma openPage_post: "\<exists>b. snd (openPage env s) = s\<lparr>browser := b\<rparr>"
  by (auto simp: openPage_def split: option.splits intro: exI [of _ "browser s"])

lemma tryBody_state:
  "tryBody mk env url ((claimUrl url' s)\<lparr>browser := b\<rparr>) = tryBody mk env url s"
  by (simp add: tryBody_eq claimUrl_def Let_def split: sum.splits prod.splits)

lemma openPage_opened:
  assumes "browser s \<or> launch env = None" and "newPage env = None"
  shows "openPage env s = (Inr (), s\<lparr>browser := True\<rparr>)"
  using assms by (auto simp: openPage_def)

lemma openPage_not_opened:
  assumes "\<not> ((browser s \<or> launch env = None) \<and> newPage env = None)"
  shows "\<exists>e s2. openPage env s = (Inl e, s2)"
  using assms by (auto simp: openPage_def split: option.splits)

lemma progressLog_Inr_iff:
  "(\<exists>msgs. progressLog s = Inr msgs) = (\<not> (progressDue s \<and> urlQueue s = None))"
  by (auto simp: progressLog_def split: option.splits)

lemma progressLog_messages:
  assumes "progressLog s = Inr msgs"
  shows "results_of msgs = []" and "ErrorLog u e \<notin> set msgs"
  using assms by (auto simp: progressLog_def split: option.splits if_splits)

lemma progressLog_claimUrl:
  "progressDue (claimUrl url s) = progressDue (s\<lparr>counter := counter s + 1\<rparr>)"
  "urlQueue (claimUrl url s) = urlQueue s"
  "browser (claimUrl url s) = browser s"
  "debug (claimUrl url s) = debug s"
  by (simp_all add: claimUrl_def progressDue_def)

text \<open>The call when the progress message does not throw and the page opens.\<close>

lemma crawlPage_opened:
  assumes "progressLog (claimUrl url s) = Inr progress"
    and "browser s \<or> launch env = None" and "newPage env = None"
  shows "crawlPage mk env url callback s =
     (let (result, out) =
            (case tryBody mk env url s of
               Inr (r, out) \<Rightarrow> (r, out)
             | Inl err \<Rightarrow> (Failed url err, if debug s then [ErrorLog url err] else []))
      in (case closePage env of
            Some e \<Rightarrow>
              \<lparr> completion = Inl e, post = (claimUrl url s)\<lparr>browser := True\<rparr>,
                printed = progress @ out, called_back = [] \<rparr>
          | None \<Rightarrow>
              \<lparr> completion = Inr result, post = (claimUrl url s)\<lparr>browser := True\<rparr>,
                printed = progress @ out,
                called_back = (if callback then [result] else []) \<rparr>))"
proof -
  have "openPage env (claimUrl url s) = (Inr (), (claimUrl url s)\<lparr>browser := True\<rparr>)"
    by (rule openPage_opened) (use assms in \<open>simp_all add: progressLog_claimUrl\<close>)
  then show ?thesis
    using assms(1)
    by (simp add: crawlPage_def Let_def tryBody_state progressLog_claimUrl
        split: sum.splits prod.splits option.splits)
qed

text \<open>The call when the progress message throws or no page opens.\<close>

lemma crawlPage_rejected:
  assumes "(progressDue (claimUrl url s) \<and> urlQueue s = None)
           \<or> \<not> ((browser s \<or> launch env = None) \<and> newPage env = None)"
  shows "\<exists>e. completion (crawlPage mk env url callback s) = Inl e"
    and "called_back (crawlPage mk env url callback s) = []"
    and "results_of (printed (crawlPage mk env url callback s)) = []"
proof -
  consider (message) e where "progressLog (claimUrl url s) = Inl e"
    | (page) progress e s2 where "progressLog (claimUrl url s) = Inr progress"
        "openPage env (claimUrl url s) = (Inl e, s2)"
  proof (cases "progressLog (claimUrl url s)")
    case (Inl e)
    then show ?thesis by (rule message)
  next
    case (Inr progress)
    then have "\<not> (progressDue (claimUrl url s) \<and> urlQueue (claimUrl url s) = None)"
      using progressLog_Inr_iff [of "claimUrl url s"] by blast
    with assms have "\<not> ((browser (claimUrl url s) \<or> launch env = None) \<and> newPage env = None)"
      unfolding progressLog_claimUrl by blast
    then have "\<exists>e s2. openPage env (claimUrl url s) = (Inl e, s2)"
      by (rule openPage_not_opened)
    then obtain e s2 where "openPage env (claimUrl url s) = (Inl e, s2)"
      by (elim exE)
    with Inr show ?thesis by (rule page)
  qed
  then have "(\<exists>e. completion (crawlPage mk env url callback s) = Inl e)
             \<and> called_back (crawlPage mk env url callback s) = []
             \<and> results_of (printed (crawlPage mk env url callback s)) = []"
  proof cases
    case message
    then show ?thesis by (simp add: crawlPage_def Let_def)
  next
    case page
    then show ?thesis
      by (simp add: crawlPage_def Let_def progressLog_messages(1))
  qed
  then show "\<exists>e. completion (crawlPage mk env url callback s) = Inl e"
    and "called_back (crawlPage mk env url callback s) = []"
    and "results_of (printed (crawlPage mk env url callback s)) = []"
    by simp_all
qed

lemma crawlPage_post:
  "\<exists>b. post (crawlPage mk env url callback s)
     = s\<lparr>crawledUrls := insert url (crawledUrls s), counter := counter s + 1, browser := b\<rparr>"
proof -
  let ?s1 = "claimUrl url s"
  obtain b where b: "snd (openPage env ?s1) = ?s1\<lparr>browser := b\<rparr>"
    using openPage_post by blast
  obtain r s2 where o: "openPage env ?s1 = (r, s2)"
    by (cases "openPage env ?s1")
  with b have s2: "s2 = ?s1\<lparr>browser := b\<rparr>" by simp
  have "post (crawlPage mk env url callback s) = ?s1\<lparr>browser := b\<rparr>
        \<or> post (crawlPage mk env url callback s) = ?s1\<lparr>browser := browser s\<rparr>"
    using o s2
    by (simp add: crawlPage_def Let_def claimUrl_def
        split: sum.splits option.splits prod.splits)
  then show ?thesis
  proof
    assume "post (crawlPage mk env url callback s) = ?s1\<lparr>browser := b\<rparr>"
    then show ?thesis by (auto simp: claimUrl_def)
  next
    assume "post (crawlPage mk env url callback s) = ?s1\<lparr>browser := browser s\<rparr>"
    then show ?thesis by (intro exI [of _ "browser s"]) (simp add: claimUrl_def)
  qed
qed

lemma performCrawl_already_crawled:
  "url \<in> crawledUrls s \<Longrightarrow>
   performCrawl mk env url True s =
     \<lparr> completion = Inr (AlreadyCrawled url), post = s, printed = [],
       called_back = [AlreadyCrawled url] \<rparr>"
  by (simp add: performCrawl_def)

lemma performCrawl_processed:
  "\<not> (url \<in> crawledUrls s \<and> callback) \<Longrightarrow>
   performCrawl mk env url callback s = crawlPage mk env url callback s"
  by (auto simp: performCrawl_def)

lemma performCrawl_post:
  "\<exists>b. post (performCrawl mk env url callback s) =
     (if url \<in> crawledUrls s \<and> callback then s
      else s\<lparr>crawledUrls := insert url (crawledUrls s), counter := counter s + 1,
             browser := b\<rparr>)"
  using crawlPage_post [of mk env url callback s] by (auto simp: performCrawl_def)

lemma crawledUrls_performCrawl:
  "crawledUrls (post (performCrawl mk env url callback s)) = insert url (crawledUrls s)"
  using performCrawl_post [of mk env url callback s] by (auto split: if_splits)

lemma counter_performCrawl:
  "counter (post (performCrawl mk env url callback s)) =
     (if url \<in> crawledUrls s \<and> callback then counter s else counter s + 1)"
  using performCrawl_post [of mk env url callback s] by (auto split: if_splits)

lemma performCrawl_never_enqueues:
  "urlQueue (post (performCrawl mk env url callback s)) = urlQueue s
   \<and> numberAdded (post (performCrawl mk env url callback s)) = numberAdded s"
  using performCrawl_post [of mk env url callback s] by (auto split: if_splits)

lemma performCrawl_configuration:
  "dictionary (post (performCrawl mk env url callback s)) = dictionary s
   \<and> minimumWordLength (post (performCrawl mk env url callback s)) = minimumWordLength s
   \<and> interestingDomains (post (performCrawl mk env url callback s)) = interestingDomains s
   \<and> finished (post (performCrawl mk env url callback s)) = finished s"
  using performCrawl_post [of mk env url callback s] by (auto split: if_splits)

lemma results_of_append: "results_of (xs @ ys) = results_of xs @ results_of ys"
  by (induction xs rule: results_of.induct) simp_all

lemma Result_in_set_iff: "Result r \<in> set items \<longleftrightarrow> r \<in> set (results_of items)"
  by (induction items rule: results_of.induct) auto

lemma tryBody_results:
  assumes "tryBody mk env url s = Inr (r, out)"
  shows "results_of out = (case r of Found u ms ls \<Rightarrow> [r] | _ \<Rightarrow> [])"
    and "(\<exists>ms. r = Found url ms []) \<or> r = NotFound url"
  using assms by (auto simp: tryBody_eq Let_def split: sum.splits prod.splits if_splits)

text \<open>What a call that got past the check of lines 146 to 151 can emit.\<close>

lemma crawlPage_emits:
  assumes "r \<in> set (results_of (printed (crawlPage mk env url callback s)))
           \<or> r \<in> set (called_back (crawlPage mk env url callback s))
           \<or> completion (crawlPage mk env url callback s) = Inr r"
  shows "(\<exists>out. tryBody mk env url s = Inr (r, out))
         \<or> (\<exists>e. tryBody mk env url s = Inl e \<and> r = Failed url e)"
proof (cases "(progressDue (claimUrl url s) \<and> urlQueue s = None)
              \<or> \<not> ((browser s \<or> launch env = None) \<and> newPage env = None)")
  case True
  from crawlPage_rejected [OF True, of mk callback] assms show ?thesis
    by auto
next
  case False
  then have opened: "browser s \<or> launch env = None" "newPage env = None" by simp_all
  from False obtain progress where progress: "progressLog (claimUrl url s) = Inr progress"
    using progressLog_Inr_iff [of "claimUrl url s"] by (auto simp: progressLog_claimUrl)
  note call = crawlPage_opened [OF progress opened]
  note quiet = progressLog_messages(1) [OF progress]
  show ?thesis
  proof (cases "tryBody mk env url s")
    case (Inl e)
    with assms show ?thesis
      by (auto simp: call Let_def results_of_append quiet split: option.splits if_splits)
  next
    case (Inr p)
    obtain r' out where p: "p = (r', out)" by (cases p)
    have out: "results_of out = [] \<or> results_of out = [r']"
      using tryBody_results(1) [of mk env url s r' out] Inr p
      by (auto split: crawl_result.splits)
    with assms Inr p show ?thesis
      by (auto simp: call Let_def results_of_append quiet split: option.splits if_splits)
  qed
qed

lemma performCrawl_emits_Found:
  assumes "Found u ms ls \<in> set (results_of (printed (performCrawl mk env url callback s)))
           \<or> Found u ms ls \<in> set (called_back (performCrawl mk env url callback s))
           \<or> completion (performCrawl mk env url callback s) = Inr (Found u ms ls)"
  shows "\<exists>content hrefs links.
           navigate env = Inr (content, hrefs)
           \<and> construct_all mk (array_from_set hrefs) = Inr links
           \<and> u = url
           \<and> ms = findMatches (dictionary s) (pageWords (minimumWordLength s) content)
           \<and> ms \<noteq> []
           \<and> validLinksOf mk (array_from_set hrefs) = Inr ls
           \<and> ls = []"
proof -
  have processed: "performCrawl mk env url callback s = crawlPage mk env url callback s"
    using assms by (auto simp: performCrawl_def split: if_splits)
  from assms have "\<exists>out. tryBody mk env url s = Inr (Found u ms ls, out)"
    using crawlPage_emits [of "Found u ms ls" mk env url callback s]
    unfolding processed by auto
  then obtain out where body: "tryBody mk env url s = Inr (Found u ms ls, out)" ..
  then obtain content hrefs where nav: "navigate env = Inr (content, hrefs)"
    by (auto simp: tryBody_eq split: sum.splits prod.splits)
  with body obtain links where links: "construct_all mk (array_from_set hrefs) = Inr links"
    by (auto simp: tryBody_eq split: sum.splits)
  from body nav links
  have "u = url \<and> ms = findMatches (dictionary s) (pageWords (minimumWordLength s) content)
        \<and> ms \<noteq> [] \<and> ls = []"
    by (auto simp: tryBody_eq Let_def split: if_splits)
  with nav links show ?thesis
    by (auto simp: validLinksOf_eq)
qed

section \<open>Facts about runs\<close>

text \<open>
  \<open>crawledUrls\<close> only grows and \<open>counter\<close> never decreases, whatever happens in a run;
  \<open>finished\<close> is set by the drain handler and by nothing else, and no method resets it.
\<close>

lemma onDrain_state: "fst (snd (onDrain browserClose s)) = s\<lparr>finished := True\<rparr>"
  by (simp add: onDrain_def Let_def split: prod.splits)

lemma crawledUrls_step: "crawledUrls s \<subseteq> crawledUrls (step mk event s)"
proof (cases event)
  case (Perform env url callback)
  then show ?thesis by (auto simp: crawledUrls_performCrawl)
next
  case (Enqueue url)
  then show ?thesis by (simp add: enqueueCrawl_def split: option.splits)
next
  case (Drain browserClose)
  then show ?thesis by (simp add: onDrain_state)
next
  case (Close browserClose)
  then show ?thesis by simp
qed

lemma crawledUrls_run: "crawledUrls s \<subseteq> crawledUrls (run mk events s)"
  unfolding run_def
proof (induction events arbitrary: s)
  case Nil
  show ?case by simp
next
  case (Cons event events)
  have "crawledUrls s \<subseteq> crawledUrls (step mk event s)" by (rule crawledUrls_step)
  also have "\<dots> \<subseteq> crawledUrls (fold (step mk) events (step mk event s))" by (rule Cons.IH)
  finally show ?case by simp
qed

lemma counter_step: "counter s \<le> counter (step mk event s)"
  by (cases event)
    (simp_all add: counter_performCrawl enqueueCrawl_def onDrain_state split: option.splits)

lemma fetch_failure_keeps_claim:
  assumes "\<not> (url \<in> crawledUrls s \<and> callback)" and "navigate env = Inl e"
  shows "url \<in> crawledUrls (post (performCrawl mk env url callback s))
         \<and> counter (post (performCrawl mk env url callback s)) = counter s + 1"
  using assms by (simp add: crawledUrls_performCrawl counter_performCrawl)

lemma no_second_attempt_with_callback:
  assumes "url \<in> crawledUrls s" and "\<And>env. Perform env url False \<notin> set events"
  shows "processed_attempts mk url events s = 0"
  using assms
proof (induction events arbitrary: s)
  case Nil
  show ?case by simp
next
  case (Cons event events)
  have claimed: "url \<in> crawledUrls (step mk event s)"
    using Cons.prems(1) crawledUrls_step [of s mk event] by blast
  have rest: "processed_attempts mk url events (step mk event s) = 0"
    by (rule Cons.IH [OF claimed]) (use Cons.prems(2) in auto)
  show ?case
  proof (cases event)
    case (Perform env url' callback)
    with Cons.prems have "url' = url \<Longrightarrow> callback" by (cases callback) auto
    with Perform rest Cons.prems(1) show ?thesis by auto
  qed (use rest in simp_all)
qed

lemma at_most_once_with_callback:
  assumes "\<And>env. Perform env url False \<notin> set events"
  shows "processed_attempts mk url events s \<le> 1"
  using assms
proof (induction events arbitrary: s)
  case Nil
  show ?case by simp
next
  case (Cons event events)
  have later: "\<And>env. Perform env url False \<notin> set events"
    using Cons.prems by auto
  show ?case
  proof (cases event)
    case (Perform env url' callback)
    show ?thesis
    proof (cases "url' = url \<and> \<not> (url \<in> crawledUrls s \<and> callback)")
      case True
      then have "url \<in> crawledUrls (step mk event s)"
        using Perform by (simp add: crawledUrls_performCrawl)
      then have "processed_attempts mk url events (step mk event s) = 0"
        using later by (rule no_second_attempt_with_callback)
      with Perform True show ?thesis by simp
    next
      case False
      with Perform Cons.IH [OF later, of "step mk event s"] show ?thesis by auto
    qed
  qed (use Cons.IH [OF later] in simp_all)
qed

lemma finished_step: "finished s \<Longrightarrow> finished (step mk event s)"
  by (cases event)
    (simp_all add: performCrawl_configuration enqueueCrawl_def onDrain_state
      split: option.splits)

lemma finished_never_reverts: "finished s \<Longrightarrow> finished (run mk events s)"
  unfolding run_def by (induction events arbitrary: s) (simp_all add: finished_step)

lemma finished_after_drain: "finished (step mk (Drain browserClose) s)"
  by (simp add: onDrain_state)

section \<open>The result of a page\<close>

text \<open>
  Claim C9: whenever a Found result is emitted (passed to \<open>this.output\<close>, passed to the
  callback, or built as the call's result), every element of its matches is a member of
  the dictionary, is entirely lowercase (lowercasing leaves it unchanged, it has no
  capital letter) and has length strictly greater than \<open>minimumWordLength\<close>; in
  particular the matches are a subset of the dictionary.
\<close>

theorem found_matches_in_dictionary:
  assumes "Result (Found u ms ls) \<in> set (printed (performCrawl mk env url callback s))
           \<or> Found u ms ls \<in> set (called_back (performCrawl mk env url callback s))
           \<or> completion (performCrawl mk env url callback s) = Inr (Found u ms ls)"
  shows "set ms \<subseteq> dictionary s
         \<and> (\<forall>w \<in> set ms. toLowerCase w = w \<and> (\<forall>c \<in> set w. \<not> isUpper c)
                \<and> int (length w) > minimumWordLength s)"
proof -
  from assms obtain content where
    ms: "ms = findMatches (dictionary s) (pageWords (minimumWordLength s) content)"
    using performCrawl_emits_Found [of u ms ls mk env url callback s]
    by (auto simp: Result_in_set_iff)
  have in_dict: "set ms \<subseteq> dictionary s"
    by (auto simp: ms set_findMatches)
  have word: "toLowerCase w = w \<and> (\<forall>c \<in> set w. \<not> isUpper c)
              \<and> int (length w) > minimumWordLength s" if "w \<in> set ms" for w
  proof -
    from that have "w \<in> set (pageWords (minimumWordLength s) content)"
      by (simp add: ms set_findMatches)
    then obtain t where t: "w = toLowerCase t" and len: "minimumWordLength s < int (length w)"
      by (auto simp: set_pageWords)
    from t show ?thesis
      using len by (auto simp: toLowerCase_idem dest: no_upper_toLowerCase)
  qed
  from in_dict word show ?thesis by blast
qed

text \<open>A page with \<open>DOGS\<close> in it: the match is \<open>dogs\<close>; \<open>cat\<close> has length 3 only.\<close>

theorem found_matches_in_dictionary_witness:
  "completion (performCrawl classify
       (loadedPage ''Two DOGS and a Cat'' [''https://example.com/a'']) ''https://a.test'' True
       (Crawler [''dogs'', ''cat''] False False [''example.com''] [] 3 100))
     = Inr (Found ''https://a.test'' [''dogs''] [])
   \<and> set [''dogs''] \<subseteq> dictionary (Crawler [''dogs'', ''cat''] False False [''example.com''] [] 3 100)
   \<and> toLowerCase ''dogs'' = ''dogs''
   \<and> \<not> isUpper (CHR ''d'')
   \<and> int (length ''dogs'')
        > minimumWordLength (Crawler [''dogs'', ''cat''] False False [''example.com''] [] 3 100)"
proof -
  let ?s = "Crawler [''dogs'', ''cat''] False False [''example.com''] [] 3 100"
  let ?env = "loadedPage ''Two DOGS and a Cat'' [''https://example.com/a'']"
  have emitted: "completion (performCrawl classify ?env ''https://a.test'' True ?s)
                   = Inr (Found ''https://a.test'' [''dogs''] [])"
    by code_simp
  from found_matches_in_dictionary
        [of "''https://a.test''" "[''dogs'']" "[]" classify ?env "''https://a.test''" True ?s]
    emitted
  show ?thesis by simp
qed

text \<open>
  Claim C4, as the code has it: the screenshot is taken inside the one \<open>try\<close> block of
  \<open>performCrawl\<close>, before \<open>this.output(result)\<close>. Take a call that gets as far as the
  screenshot: it is not answered \<open>already crawled\<close>, its progress message does not
  throw, the page opens and loads, every link constructs, the matches are non-empty and
  screenshots are enabled. When the screenshot throws, the Found result is dropped: no
  result is passed to \<open>this.output\<close>, and the exception is printed in debug mode only.
  When \<open>page.close\<close> then succeeds, the call's result is the error result
  \<open>{found: false, url, error}\<close> with the screenshot's exception, which the callback
  receives when there is one; when \<open>page.close\<close> throws too, the call rejects and the
  callback receives nothing.
\<close>

theorem screenshot_failure_gives_error_result:
  assumes processed: "\<not> (url \<in> crawledUrls s \<and> callback)"
    and message: "\<not> (progressDue (claimUrl url s) \<and> urlQueue s = None)"
    and opened: "browser s \<or> launch env = None" "newPage env = None"
    and loaded: "navigate env = Inr (content, hrefs)"
    and links: "construct_all mk (array_from_set hrefs) = Inr links"
    and matched: "findMatches (dictionary s) (pageWords (minimumWordLength s) content) \<noteq> []"
    and shots: "takeScreenshots s" "screenshot env = Some e"
  shows "results_of (printed (performCrawl mk env url callback s)) = []
         \<and> (ErrorLog url e \<in> set (printed (performCrawl mk env url callback s))) = debug s
         \<and> (case closePage env of
               None \<Rightarrow>
                 completion (performCrawl mk env url callback s) = Inr (Failed url e)
                 \<and> called_back (performCrawl mk env url callback s)
                      = (if callback then [Failed url e] else [])
             | Some e' \<Rightarrow>
                 completion (performCrawl mk env url callback s) = Inl e'
                 \<and> called_back (performCrawl mk env url callback s) = [])"
proof -
  have body: "tryBody mk env url s = Inl e"
    using loaded links matched shots by (simp add: tryBody_eq)
  have call: "performCrawl mk env url callback s = crawlPage mk env url callback s"
    using processed by (rule performCrawl_processed)
  from message obtain progress where progress: "progressLog (claimUrl url s) = Inr progress"
    using progressLog_Inr_iff [of "claimUrl url s"] by (auto simp: progressLog_claimUrl)
  note quiet = progressLog_messages [OF progress]
  show ?thesis
    unfolding call crawlPage_opened [OF progress opened]
    using body quiet
    by (simp add: Let_def results_of_append split: option.splits)
qed

text \<open>
  An initialised crawler in debug mode that prints its progress at every page; the
  screenshot fails with \<open>EACCES\<close>.
\<close>

theorem screenshot_failure_gives_error_result_witness:
  "completion (performCrawl classify
       ((loadedPage ''two dogs'' [''https://example.com/a''])\<lparr>screenshot := Some ''EACCES''\<rparr>)
       ''https://a.test'' False
       ((Crawler [''dogs''] True True [] [] 3 1)\<lparr>browser := True, urlQueue := Some []\<rparr>))
     = Inr (Failed ''https://a.test'' ''EACCES'')
   \<and> called_back (performCrawl classify
       ((loadedPage ''two dogs'' [''https://example.com/a''])\<lparr>screenshot := Some ''EACCES''\<rparr>)
       ''https://a.test'' False
       ((Crawler [''dogs''] True True [] [] 3 1)\<lparr>browser := True, urlQueue := Some []\<rparr>)) = []
   \<and> results_of (printed (performCrawl classify
       ((loadedPage ''two dogs'' [''https://example.com/a''])\<lparr>screenshot := Some ''EACCES''\<rparr>)
       ''https://a.test'' False
       ((Crawler [''dogs''] True True [] [] 3 1)\<lparr>browser := True, urlQueue := Some []\<rparr>))) = []
   \<and> ErrorLog ''https://a.test'' ''EACCES'' \<in> set (printed (performCrawl classify
       ((loadedPage ''two dogs'' [''https://example.com/a''])\<lparr>screenshot := Some ''EACCES''\<rparr>)
       ''https://a.test'' False
       ((Crawler [''dogs''] True True [] [] 3 1)\<lparr>browser := True, urlQueue := Some []\<rparr>)))"
proof -
  let ?s = "(Crawler [''dogs''] True True [] [] 3 1)\<lparr>browser := True, urlQueue := Some []\<rparr>"
  let ?env = "(loadedPage ''two dogs'' [''https://example.com/a''])\<lparr>screenshot := Some ''EACCES''\<rparr>"
  have processed: "\<not> (''https://a.test'' \<in> crawledUrls ?s \<and> False)" by simp
  have message: "\<not> (progressDue (claimUrl ''https://a.test'' ?s) \<and> urlQueue ?s = None)"
    by simp
  have opened: "browser ?s \<or> launch ?env = None" "newPage ?env = None"
    by (simp_all add: loadedPage_def)
  have loaded: "navigate ?env = Inr (''two dogs'', [''https://example.com/a''])"
    by (simp add: loadedPage_def)
  have links: "construct_all classify (array_from_set [''https://example.com/a''])
                 = Inr [\<lparr>isCrawlable = True, crawlableUrl = ''https://example.com/a'',
                         hostname = ''example.com''\<rparr>]"
    by code_simp
  have matched: "findMatches (dictionary ?s) (pageWords (minimumWordLength ?s) ''two dogs'') \<noteq> []"
    by code_simp
  have shots: "takeScreenshots ?s" "screenshot ?env = Some ''EACCES''"
    by (simp_all add: Crawler_def)
  have closed: "closePage ?env = None"
    by (simp add: loadedPage_def)
  have dbg: "debug ?s" by (simp add: Crawler_def)
  from screenshot_failure_gives_error_result
        [OF processed message opened loaded links matched shots] closed dbg
  show ?thesis by simp
qed

text \<open>
  Claim C4 as stated keeps the Found status. With a match, screenshots enabled and a
  failing screenshot the result is the error result, and without debug mode nothing is
  printed.
\<close>

theorem screenshot_failure_counterexample:
  "findMatches (dictionary (Crawler [''dogs''] False True [] [] 3 100))
       (pageWords (minimumWordLength (Crawler [''dogs''] False True [] [] 3 100)) ''two dogs'')
     = [''dogs'']
   \<and> takeScreenshots (Crawler [''dogs''] False True [] [] 3 100)
   \<and> performCrawl classify ((loadedPage ''two dogs'' [])\<lparr>screenshot := Some ''EACCES''\<rparr>)
        ''https://a.test'' True (Crawler [''dogs''] False True [] [] 3 100)
     = \<lparr> completion = Inr (Failed ''https://a.test'' ''EACCES''),
         post = (Crawler [''dogs''] False True [] [] 3 100)
                  \<lparr>browser := True, counter := 1, crawledUrls := {''https://a.test''}\<rparr>,
         printed = [], called_back = [Failed ''https://a.test'' ''EACCES''] \<rparr>"
  by code_simp

text \<open>
  Claim C7, as the code has it: for every page with a non-empty match set, the
  \<open>links\<close> field of the Found result (passed to \<open>this.output\<close>, passed to the callback
  or built as the call's result) is the list \<open>validLinks\<close> itself, the candidates of the
  frontier expansion, and each of its elements is the crawl URL of a crawlable link of the
  page: a non-crawlable link is in neither.
\<close>

theorem links_are_the_candidates:
  assumes "Result (Found u ms ls) \<in> set (printed (performCrawl mk env url callback s))
           \<or> Found u ms ls \<in> set (called_back (performCrawl mk env url callback s))
           \<or> completion (performCrawl mk env url callback s) = Inr (Found u ms ls)"
  shows "\<exists>content hrefs.
           navigate env = Inr (content, hrefs)
           \<and> validLinksOf mk (array_from_set hrefs) = Inr ls
           \<and> set ls \<subseteq> {crawlableUrl l | h l. h \<in> set hrefs \<and> mk h = Inr l \<and> isCrawlable l}"
proof -
  from assms obtain content hrefs where
    page: "navigate env = Inr (content, hrefs)"
    and candidates: "validLinksOf mk (array_from_set hrefs) = Inr ls"
    and none: "ls = []"
    using performCrawl_emits_Found [of u ms ls mk env url callback s]
    unfolding Result_in_set_iff by blast
  from none have "set ls \<subseteq> {crawlableUrl l | h l. h \<in> set hrefs \<and> mk h = Inr l \<and> isCrawlable l}"
    by simp
  with page candidates show ?thesis by blast
qed

text \<open>A matching page whose only link is a \<open>mailto:\<close> link.\<close>

theorem links_are_the_candidates_witness:
  "completion (performCrawl classify
        (loadedPage ''two dogs'' [''mailto:someone@example.com''])
        ''https://a.test'' False (Crawler [''dogs''] False False [] [] 3 100))
     = Inr (Found ''https://a.test'' [''dogs''] [])
   \<and> (\<exists>content hrefs.
         navigate (loadedPage ''two dogs'' [''mailto:someone@example.com'']) = Inr (content, hrefs)
         \<and> validLinksOf classify (array_from_set hrefs) = Inr []
         \<and> set [] \<subseteq> {crawlableUrl l | h l. h \<in> set hrefs \<and> classify h = Inr l \<and> isCrawlable l})"
proof -
  let ?s = "Crawler [''dogs''] False False [] [] 3 100"
  let ?env = "loadedPage ''two dogs'' [''mailto:someone@example.com'']"
  have found: "completion (performCrawl classify ?env ''https://a.test'' False ?s)
                 = Inr (Found ''https://a.test'' [''dogs''] [])"
    by code_simp
  from links_are_the_candidates [OF disjI2 [OF disjI2 [OF found]]] found
  show ?thesis by simp
qed

text \<open>
  Claim C7 as stated has the non-crawlable links in the \<open>links\<close> field. A matching
  page with a \<open>mailto:\<close> link, which is not crawlable: the \<open>links\<close> field of its Found
  result does not have it.
\<close>

theorem links_counterexample:
  "classify ''mailto:someone@example.com''
     = Inr \<lparr>isCrawlable = False, crawlableUrl = ''mailto:someone@example.com'', hostname = []\<rparr>
   \<and> completion (performCrawl classify
        (loadedPage ''two dogs'' [''mailto:someone@example.com'', ''https://example.com/a''])
        ''https://a.test'' True (Crawler [''dogs''] False False [''example.com''] [] 3 100))
     = Inr (Found ''https://a.test'' [''dogs''] [])
   \<and> ''mailto:someone@example.com'' \<notin> set ([] :: string list)"
  by code_simp

text \<open>
  Claim C8, as the code has it. Every call of \<open>performCrawl\<close> builds at most one result.
  It builds one exactly when it is answered \<open>already crawled\<close>, or its progress message
  does not throw and the browser launches (when there is none), opens the page and
  closes it without an exception; otherwise the call rejects. A result that is built is
  passed to the callback exactly once when there is a callback, and to \<open>this.output\<close>
  exactly once when it is a Found result and not at all when it is a NotFound,
  AlreadyCrawled or Failed result. A call that rejects passes nothing to the callback, and
  to \<open>this.output\<close> at most the one Found result it printed before \<open>page.close\<close> threw.
\<close>

theorem one_result_per_task:
  "(case completion (performCrawl mk env url callback s) of
      Inr r \<Rightarrow>
        called_back (performCrawl mk env url callback s) = (if callback then [r] else [])
        \<and> results_of (printed (performCrawl mk env url callback s))
             = (case r of Found u ms ls \<Rightarrow> [r] | _ \<Rightarrow> [])
    | Inl e \<Rightarrow>
        called_back (performCrawl mk env url callback s) = []
        \<and> (results_of (printed (performCrawl mk env url callback s)) = []
             \<or> (\<exists>ms ls. results_of (printed (performCrawl mk env url callback s))
                           = [Found url ms ls])))
   \<and> ((\<exists>r. completion (performCrawl mk env url callback s) = Inr r)
        = ((url \<in> crawledUrls s \<and> callback)
           \<or> ((progressDue (claimUrl url s) \<longrightarrow> urlQueue s \<noteq> None)
               \<and> (browser s \<or> launch env = None)
               \<and> newPage env = None \<and> closePage env = None)))"
proof (cases "url \<in> crawledUrls s \<and> callback")
  case True
  then show ?thesis by (simp add: performCrawl_def)
next
  case False
  then have call: "performCrawl mk env url callback s = crawlPage mk env url callback s"
    by (rule performCrawl_processed)
  show ?thesis
  proof (cases "(progressDue (claimUrl url s) \<and> urlQueue s = None)
                \<or> \<not> ((browser s \<or> launch env = None) \<and> newPage env = None)")
    case True
    from crawlPage_rejected [OF True, of mk callback] False True show ?thesis
      unfolding call by auto
  next
    case opened: False
    then have page: "browser s \<or> launch env = None" "newPage env = None" by simp_all
    from opened obtain progress where progress: "progressLog (claimUrl url s) = Inr progress"
      using progressLog_Inr_iff [of "claimUrl url s"] by (auto simp: progressLog_claimUrl)
    note quiet = progressLog_messages(1) [OF progress]
    show ?thesis
    proof (cases "tryBody mk env url s")
      case (Inl e)
      with False opened show ?thesis
        unfolding call crawlPage_opened [OF progress page]
        by (auto simp: Let_def results_of_append quiet split: option.splits)
    next
      case (Inr p)
      obtain r out where p: "p = (r, out)" by (cases p)
      note body = tryBody_results [of mk env url s r out]
      from Inr p body False opened show ?thesis
        unfolding call crawlPage_opened [OF progress page]
        by (auto simp: Let_def results_of_append quiet split: option.splits)
    qed
  qed
qed

text \<open>
  A matching page, for an initialised crawler in debug mode that prints its progress at
  every page.
\<close>

theorem one_result_per_task_witness:
  "completion (performCrawl classify (loadedPage ''two dogs'' []) ''https://a.test'' True
       ((Crawler [''dogs''] True False [] [] 3 1)\<lparr>browser := True, urlQueue := Some []\<rparr>))
     = Inr (Found ''https://a.test'' [''dogs''] [])
   \<and> called_back (performCrawl classify (loadedPage ''two dogs'' []) ''https://a.test'' True
       ((Crawler [''dogs''] True False [] [] 3 1)\<lparr>browser := True, urlQueue := Some []\<rparr>))
     = [Found ''https://a.test'' [''dogs''] []]
   \<and> results_of (printed (performCrawl classify (loadedPage ''two dogs'' []) ''https://a.test'' True
       ((Crawler [''dogs''] True False [] [] 3 1)\<lparr>browser := True, urlQueue := Some []\<rparr>)))
     = [Found ''https://a.test'' [''dogs''] []]"
proof -
  let ?s = "(Crawler [''dogs''] True False [] [] 3 1)\<lparr>browser := True, urlQueue := Some []\<rparr>"
  let ?env = "loadedPage ''two dogs'' []"
  have found: "completion (performCrawl classify ?env ''https://a.test'' True ?s)
                 = Inr (Found ''https://a.test'' [''dogs''] [])"
    by code_simp
  from one_result_per_task [of classify ?env "''https://a.test''" True ?s] found
  show ?thesis by simp
qed

text \<open>
  Claim C8 as stated has every processed task produce a result and every result passed to
  the output callback. A page without a match and a page that fails to load: the callback
  receives the result, \<open>this.output\<close> is not called. A page that \<open>browser.newPage\<close>
  does not open, a page that \<open>page.close\<close> does not close, and a crawler in debug mode
  without \<open>init\<close> whose progress message is due: the call rejects, there is no result
  and the callback is not called.
\<close>

theorem sink_counterexample:
  "performCrawl classify (loadedPage ''nothing here'' []) ''https://a.test'' True
       (Crawler [''dogs''] False False [] [] 3 100)
     = \<lparr> completion = Inr (NotFound ''https://a.test''),
         post = (Crawler [''dogs''] False False [] [] 3 100)
                  \<lparr>browser := True, counter := 1, crawledUrls := {''https://a.test''}\<rparr>,
         printed = [], called_back = [NotFound ''https://a.test''] \<rparr>
   \<and> performCrawl classify (failingPage ''TimeoutError'') ''https://a.test'' True
       (Crawler [''dogs''] False False [] [] 3 100)
     = \<lparr> completion = Inr (Failed ''https://a.test'' ''TimeoutError''),
         post = (Crawler [''dogs''] False False [] [] 3 100)
                  \<lparr>browser := True, counter := 1, crawledUrls := {''https://a.test''}\<rparr>,
         printed = [], called_back = [Failed ''https://a.test'' ''TimeoutError''] \<rparr>
   \<and> performCrawl classify ((loadedPage ''two dogs'' [])\<lparr>newPage := Some ''TargetCloseError''\<rparr>)
       ''https://a.test'' True (Crawler [''dogs''] False False [] [] 3 100)
     = \<lparr> completion = Inl ''TargetCloseError'',
         post = (Crawler [''dogs''] False False [] [] 3 100)
                  \<lparr>browser := True, counter := 1, crawledUrls := {''https://a.test''}\<rparr>,
         printed = [], called_back = [] \<rparr>
   \<and> performCrawl classify ((loadedPage ''two dogs'' [])\<lparr>closePage := Some ''TargetCloseError''\<rparr>)
       ''https://a.test'' True (Crawler [''dogs''] False False [] [] 3 100)
     = \<lparr> completion = Inl ''TargetCloseError'',
         post = (Crawler [''dogs''] False False [] [] 3 100)
                  \<lparr>browser := True, counter := 1, crawledUrls := {''https://a.test''}\<rparr>,
         printed = [Result (Found ''https://a.test'' [''dogs''] [])], called_back = [] \<rparr>
   \<and> performCrawl classify (loadedPage ''two dogs'' []) ''https://a.test'' True
       (Crawler [''dogs''] True False [] [] 3 1)
     = \<lparr> completion = Inl ''TypeError: urlQueue is undefined'',
         post = (Crawler [''dogs''] True False [] [] 3 1)
                  \<lparr>counter := 1, crawledUrls := {''https://a.test''}\<rparr>,
         printed = [], called_back = [] \<rparr>"
  by code_simp

section \<open>Deduplication and frontier growth\<close>

text \<open>
  Claim C1 says that at most one attempt per URL is processed whether or not a callback
  is supplied. \<open>at_most_once_with_callback\<close> is the case of attempts that all carry a
  callback. Without one, the \<open>return\<close> of line 149 is not reached: two attempts for the
  same URL are both processed, and an attempt for a URL that is already in
  \<open>crawledUrls\<close> loads the page again, where the same attempt with a callback is answered
  \<open>already crawled\<close>.
\<close>

theorem attempt_without_callback_is_processed_again:
  "processed_attempts classify ''https://a.test''
     [Perform (loadedPage ''nothing here'' []) ''https://a.test'' False,
      Perform (loadedPage ''nothing here'' []) ''https://a.test'' False]
     (Crawler [''target''] False False [''a.test''] [] 3 100) = 2
   \<and> counter (run classify
        [Perform (loadedPage ''nothing here'' []) ''https://a.test'' False,
         Perform (loadedPage ''nothing here'' []) ''https://a.test'' False]
        (Crawler [''target''] False False [''a.test''] [] 3 100)) = 2
   \<and> completion (performCrawl classify (loadedPage ''nothing here'' []) ''https://a.test'' False
        (Crawler [''target''] False False [''a.test''] [''https://a.test''] 3 100))
       = Inr (NotFound ''https://a.test'')
   \<and> completion (performCrawl classify (loadedPage ''nothing here'' []) ''https://a.test'' True
        (Crawler [''target''] False False [''a.test''] [''https://a.test''] 3 100))
       = Inr (AlreadyCrawled ''https://a.test'')"
  by code_simp

text \<open>
  Claim C2 says that every link whose hostname is an interesting domain is enqueued. With
  the interesting domain \<open>example.com\<close>, an initialised crawler and a page with the links
  \<open>https://example.com/a\<close> and \<open>https://other.com/b\<close>: the link's hostname is
  interesting, and after the call the queue is still empty and \<open>numberAdded\<close> is still 0
  (\<open>performCrawl_never_enqueues\<close> is the general fact). The \<open>links\<close> field is empty too.
\<close>

theorem interesting_link_is_not_enqueued:
  "init None (Crawler [''dogs''] False False [''example.com''] [] 3 100)
     = Inr ((Crawler [''dogs''] False False [''example.com''] [] 3 100)
              \<lparr>browser := True, urlQueue := Some []\<rparr>, [])
   \<and> classify ''https://example.com/a''
       = Inr \<lparr>isCrawlable = True, crawlableUrl = ''https://example.com/a'',
              hostname = ''example.com''\<rparr>
   \<and> ''example.com'' \<in> interestingDomains (Crawler [''dogs''] False False [''example.com''] [] 3 100)
   \<and> performCrawl classify
        (loadedPage ''two dogs'' [''https://example.com/a'', ''https://other.com/b''])
        ''https://example.com'' True
        ((Crawler [''dogs''] False False [''example.com''] [] 3 100)
           \<lparr>browser := True, urlQueue := Some []\<rparr>)
       = \<lparr> completion = Inr (Found ''https://example.com'' [''dogs''] []),
           post = (Crawler [''dogs''] False False [''example.com''] [] 3 100)
                    \<lparr>browser := True, urlQueue := Some [], counter := 1,
                      crawledUrls := {''https://example.com''}\<rparr>,
           printed = [Result (Found ''https://example.com'' [''dogs''] [])],
           called_back = [Found ''https://example.com'' [''dogs''] []] \<rparr>"
  by code_simp

text \<open>
  Claim C10 says that a URL whose fetch failed stays in \<open>crawledUrls\<close>, stays counted and
  can never be retried. The first two hold (\<open>fetch_failure_keeps_claim\<close>,
  \<open>crawledUrls_run\<close>), and a later attempt with a callback is answered
  \<open>already crawled\<close> (\<open>no_second_attempt_with_callback\<close>). A later attempt without a
  callback fetches the URL again: here the first fetch times out, the second attempt
  loads the page and finds a match.
\<close>

theorem failed_url_is_fetched_again_without_callback:
  "performCrawl classify (failingPage ''TimeoutError'') ''https://a.test'' False
     (Crawler [''target''] False False [''a.test''] [] 3 100)
     = \<lparr> completion = Inr (Failed ''https://a.test'' ''TimeoutError''),
         post = (Crawler [''target''] False False [''a.test''] [] 3 100)
                  \<lparr>browser := True, counter := 1, crawledUrls := {''https://a.test''}\<rparr>,
         printed = [], called_back = [] \<rparr>
   \<and> performCrawl classify (loadedPage ''the target'' []) ''https://a.test'' False
       ((Crawler [''target''] False False [''a.test''] [] 3 100)
          \<lparr>browser := True, counter := 1, crawledUrls := {''https://a.test''}\<rparr>)
     = \<lparr> completion = Inr (Found ''https://a.test'' [''target''] []),
         post = (Crawler [''target''] False False [''a.test''] [] 3 100)
                  \<lparr>browser := True, counter := 2, crawledUrls := {''https://a.test''}\<rparr>,
         printed = [Result (Found ''https://a.test'' [''target''] [])], called_back = [] \<rparr>"
  by code_simp

end
